theory Spec2Isabelle
  imports
    Complex_Main
    "HOL-Library.Char_ord"
    "HOL-Library.List_Lexorder"
    "HOL-Library.Product_Lexorder"
begin

section \<open>The HMDB51 clip dataset and its batch loader (src/dataset.py)\<close>

text \<open>
  The module is glue over three external layers: the file system (\<open>list_dir\<close>,
  \<open>os.walk\<close>, \<open>os.path.isfile\<close>), torchvision's \<open>VideoClips\<close> and torch's
  \<open>stack\<close> and \<open>DataLoader\<close>. None of them is code of this repository. The file
  system and \<open>VideoClips\<close> are taken as parameters, collected in the record \<open>env\<close>;
  they are pure functions of their arguments, that is, the directory tree and the video
  files do not change while the program runs. \<open>torch.stack\<close> is a parameter of
  \<open>collect_fn\<close>, and it and the iteration of \<open>DataLoader\<close> are modelled further below
  from their described behaviour. Raised exceptions are values of type \<open>error\<close> on the
  left of a sum.

  Python strings are modelled as \<open>string\<close> (byte strings); the order on them is the
  lexicographic order on character codes, which is the order Python's \<open>sorted\<close> uses.
  \<open>sort\<close> is the sorted permutation of its argument, which for a linear order is the
  list that \<open>sorted\<close> returns.
\<close>

subsection \<open>Errors and Python indexing\<close>

datatype error = OSError | KeyError | IndexError | RuntimeError | ValueError

type_synonym path = string

text \<open>\<open>xs[i]\<close> of a Python list: a negative index counts from the end, an index out of
  range raises \<open>IndexError\<close>.\<close>

definition py_getitem :: "'a list \<Rightarrow> int \<Rightarrow> error + 'a" where
  "py_getitem xs i =
     (if 0 \<le> i \<and> i < int (length xs) then Inr (xs ! nat i)
      else if i < 0 \<and> - int (length xs) \<le> i then Inr (xs ! nat (int (length xs) + i))
      else Inl IndexError)"

text \<open>\<open>os.path.join(a, b)\<close> of two components on POSIX.\<close>

definition path_join :: "path \<Rightarrow> path \<Rightarrow> path" where
  "path_join a b =
     (if b \<noteq> [] \<and> hd b = CHR ''/'' then b
      else if a = [] \<or> last a = CHR ''/'' then a @ b
      else a @ ''/'' @ b)"

subsection \<open>Dictionaries in insertion order\<close>

text \<open>A Python \<open>dict\<close> as an association list in insertion order: assigning to a key
  that is present replaces its value in place, a new key goes to the end.\<close>

type_synonym ('k, 'v) dict = "('k \<times> 'v) list"

fun dict_setitem :: "'k \<Rightarrow> 'v \<Rightarrow> ('k, 'v) dict \<Rightarrow> ('k, 'v) dict" where
  "dict_setitem k v [] = [(k, v)]"
| "dict_setitem k v (p # ps) =
     (if fst p = k then (k, v) # ps else p # dict_setitem k v ps)"

definition dict_keys :: "('k, 'v) dict \<Rightarrow> 'k list" where
  "dict_keys d = map fst d"

definition dict_getitem :: "('k, 'v) dict \<Rightarrow> 'k \<Rightarrow> error + 'v" where
  "dict_getitem d k = (case map_of d k of None \<Rightarrow> Inl KeyError | Some v \<Rightarrow> Inr v)"

subsection \<open>The external layers\<close>

text \<open>The keyword arguments of the constructor that are only handed on to
  \<open>VideoClips\<close>.\<close>

record 'm clip_params =
  frames_per_clip :: int
  step_between_clips :: int
  frame_rate :: "int option"
  precomputed_metadata :: "'m option"
  num_workers_arg :: int
  video_width :: int
  video_height :: int
  video_min_dimension :: int
  audio_samples :: int

text \<open>
  \<open>'vc\<close> is the clip collection, \<open>'v\<close> a video tensor, \<open>'a\<close> an audio tensor, \<open>'i\<close>
  the clip info and \<open>'m\<close> the metadata. \<open>os_walk top\<close> is the list of triples that
  \<open>os.walk(top, followlinks=True)\<close> yields.
\<close>

record ('vc, 'v, 'a, 'i, 'm) env =
  list_dir :: "path \<Rightarrow> error + string list"
  os_walk :: "path \<Rightarrow> (path \<times> string list \<times> string list) list"
  os_path_isfile :: "path \<Rightarrow> bool"
  VideoClips :: "path list \<Rightarrow> 'm clip_params \<Rightarrow> error + 'vc"
  vc_metadata :: "'vc \<Rightarrow> 'm"
  vc_subset :: "'vc \<Rightarrow> nat list \<Rightarrow> error + 'vc"
  vc_num_clips :: "'vc \<Rightarrow> error + nat"
  vc_get_clip :: "'vc \<Rightarrow> int \<Rightarrow> error + ('v \<times> 'a \<times> 'i \<times> int)"

subsection \<open>class HMDB51\<close>

type_synonym sample = "path \<times> nat"

record ('vc, 'v, 'm) hmdb51 =
  samples :: "sample list"
  train :: bool
  classes :: "string list"
  video_clips_metadata :: 'm
  indices :: "nat list"
  video_clips :: 'vc
  transform :: "('v \<Rightarrow> 'v) option"

text \<open>\<open>root + "/train"\<close> or \<open>root + "/test"\<close>.\<close>

definition split_root :: "path \<Rightarrow> bool \<Rightarrow> path" where
  "split_root root0 tr = (if tr then root0 @ ''/train'' else root0 @ ''/test'')"

text \<open>\<open>{class_: i for (i, class_) in enumerate(classes)}\<close>.\<close>

definition class_to_idx :: "string list \<Rightarrow> (string, nat) dict" where
  "class_to_idx cls = fold (\<lambda>(i, cname) d. dict_setitem cname i d) (enumerate 0 cls) []"

text \<open>The innermost loop, over \<open>sorted(fnames)\<close>; the accumulator is
  \<open>self.samples\<close>.\<close>

fun fnames_loop ::
  "('vc, 'v, 'a, 'i, 'm) env \<Rightarrow> path \<Rightarrow> nat \<Rightarrow> string list \<Rightarrow> sample list \<Rightarrow> sample list"
where
  "fnames_loop E root_curr class_index [] acc = acc"
| "fnames_loop E root_curr class_index (fname # fnames) acc =
     (let p = path_join root_curr fname
      in fnames_loop E root_curr class_index fnames
           (if os_path_isfile E p then acc @ [(p, class_index)] else acc))"

text \<open>The loop over \<open>sorted(os.walk(target_dir, followlinks=True))\<close>.\<close>

fun walk_loop ::
  "('vc, 'v, 'a, 'i, 'm) env \<Rightarrow> nat \<Rightarrow> (path \<times> string list \<times> string list) list \<Rightarrow>
     sample list \<Rightarrow> sample list"
where
  "walk_loop E class_index [] acc = acc"
| "walk_loop E class_index ((root_curr, _, fnames) # rest) acc =
     walk_loop E class_index rest (fnames_loop E root_curr class_index (sort fnames) acc)"

text \<open>The outer loop, over \<open>sorted(class_to_idx.keys())\<close>.\<close>

fun class_loop ::
  "('vc, 'v, 'a, 'i, 'm) env \<Rightarrow> path \<Rightarrow> (string, nat) dict \<Rightarrow> string list \<Rightarrow>
     sample list \<Rightarrow> error + sample list"
where
  "class_loop E rt d [] acc = Inr acc"
| "class_loop E rt d (target_class # rest) acc =
     (case dict_getitem d target_class of
        Inl e \<Rightarrow> Inl e
      | Inr class_index \<Rightarrow>
          (let target_dir = path_join rt target_class
           in class_loop E rt d rest
                (walk_loop E class_index (sort (os_walk E target_dir)) acc)))"

text \<open>\<open>get_indices\<close>: the loop appends the position of every entry.\<close>

definition get_indices :: "'x list \<Rightarrow> nat list" where
  "get_indices video_list =
     fold (\<lambda>(video_index, video_path) ixs. ixs @ [video_index]) (enumerate 0 video_list) []"

text \<open>\<open>__init__\<close>. The attributes that \<open>VisionDataset.__init__\<close> sets are not part of
  the record; the methods below do not read them.\<close>

definition hmdb51_init ::
  "('vc, 'v, 'a, 'i, 'm) env \<Rightarrow> path \<Rightarrow> 'm clip_params \<Rightarrow> bool \<Rightarrow> ('v \<Rightarrow> 'v) option \<Rightarrow>
     error + ('vc, 'v, 'm) hmdb51"
where
  "hmdb51_init E root0 ps tr tf =
     (let extensions = [''avi''];
          rt = split_root root0 tr
      in case list_dir E rt of
           Inl e \<Rightarrow> Inl e
         | Inr names \<Rightarrow>
             (let cls = sort names; d = class_to_idx cls
              in case class_loop E rt d (sort (dict_keys d)) [] of
                   Inl e \<Rightarrow> Inl e
                 | Inr smp \<Rightarrow>
                     (let video_paths = map fst smp
                      in case VideoClips E video_paths ps of
                           Inl e \<Rightarrow> Inl e
                         | Inr vc \<Rightarrow>
                             (let ixs = get_indices video_paths
                              in case vc_subset E vc ixs of
                                   Inl e \<Rightarrow> Inl e
                                 | Inr sub \<Rightarrow>
                                     Inr \<lparr>samples = smp, train = tr, classes = cls,
                                          video_clips_metadata = vc_metadata E vc,
                                          indices = ixs, video_clips = sub,
                                          transform = tf\<rparr>))))"

text \<open>The \<open>metadata\<close> property, \<open>__len__\<close> and \<open>__getitem__\<close>.\<close>

definition metadata :: "('vc, 'v, 'm) hmdb51 \<Rightarrow> 'm" where
  "metadata self = video_clips_metadata self"

definition len :: "('vc, 'v, 'a, 'i, 'm) env \<Rightarrow> ('vc, 'v, 'm) hmdb51 \<Rightarrow> error + nat" where
  "len E self = vc_num_clips E (video_clips self)"

definition getitem ::
  "('vc, 'v, 'a, 'i, 'm) env \<Rightarrow> ('vc, 'v, 'm) hmdb51 \<Rightarrow> int \<Rightarrow> error + ('v \<times> nat)"
where
  "getitem E self idx =
     (case vc_get_clip E (video_clips self) idx of
        Inl e \<Rightarrow> Inl e
      | Inr (video, _, _, video_idx) \<Rightarrow>
          (case py_getitem (indices self) video_idx of
             Inl e \<Rightarrow> Inl e
           | Inr sample_index \<Rightarrow>
               (case py_getitem (samples self) (int sample_index) of
                  Inl e \<Rightarrow> Inl e
                | Inr (_, class_index) \<Rightarrow>
                    Inr (case transform self of None \<Rightarrow> video | Some f \<Rightarrow> f video,
                         class_index))))"

subsection \<open>The sample list as the specification describes it\<close>

text \<open>
  The files of one class directory: the triples of the walk sorted by directory, the file
  names of each directory sorted, every joined path that is a regular file kept.
\<close>

definition spec_class_files :: "('vc, 'v, 'a, 'i, 'm) env \<Rightarrow> path \<Rightarrow> path list" where
  "spec_class_files E target_dir =
     concat (map (\<lambda>(root_curr, dirs, fnames).
                    filter (os_path_isfile E) (map (path_join root_curr) (sort fnames)))
                 (sort_key fst (os_walk E target_dir)))"

text \<open>The classes in the given order, each file paired with the position of its class.\<close>

definition spec_samples ::
  "('vc, 'v, 'a, 'i, 'm) env \<Rightarrow> path \<Rightarrow> string list \<Rightarrow> sample list"
where
  "spec_samples E rt cls =
     concat (map (\<lambda>(i, c). map (\<lambda>p. (p, i)) (spec_class_files E (path_join rt c)))
                 (enumerate 0 cls))"

text \<open>
  The same two lists with the triples in the order of \<open>sorted\<close> on whole triples, which is
  what the construction traverses; used in the proofs only.
\<close>

definition walked_files :: "('vc, 'v, 'a, 'i, 'm) env \<Rightarrow> path \<Rightarrow> path list" where
  "walked_files E target_dir =
     concat (map (\<lambda>(root_curr, dirs, fnames).
                    filter (os_path_isfile E) (map (path_join root_curr) (sort fnames)))
                 (sort (os_walk E target_dir)))"

definition walked_samples ::
  "('vc, 'v, 'a, 'i, 'm) env \<Rightarrow> path \<Rightarrow> string list \<Rightarrow> sample list"
where
  "walked_samples E rt cls =
     concat (map (\<lambda>(i, c). map (\<lambda>p. (p, i)) (walked_files E (path_join rt c)))
                 (enumerate 0 cls))"

subsection \<open>Tensors and \<open>torch.stack\<close>\<close>

text \<open>
  A tensor is its shape and its elements in row-major order. The element type is a
  parameter: no property below depends on numeric values.
\<close>

record 'x tensor =
  shape :: "nat list"
  elems :: "'x list"

text \<open>
  Modelled from the spec: \<open>torch.stack\<close> belongs to the external tensor library. The
  specification says that it puts the tensors along a new leading dimension and that
  tensors of different shapes fail at this step; the library also rejects the empty list
  (``stack expects a non-empty TensorList''). Both failures are a \<open>RuntimeError\<close>.
\<close>

definition torch_stack :: "'x tensor list \<Rightarrow> error + 'x tensor" where
  "torch_stack ts =
     (case ts of
        [] \<Rightarrow> Inl RuntimeError
      | t # rest \<Rightarrow>
          if list_all (\<lambda>u. shape u = shape t) rest
          then Inr \<lparr>shape = length ts # shape t, elems = concat (map elems ts)\<rparr>
          else Inl RuntimeError)"

text \<open>Modelled from the spec: \<open>t[i]\<close>, the \<open>i\<close>-th slice of a tensor along its leading
  dimension, of the same external library; it serves to say what stacking along a new
  leading dimension means.\<close>

definition select0 :: "'x tensor \<Rightarrow> nat \<Rightarrow> 'x tensor" where
  "select0 t i =
     (let m = prod_list (tl (shape t))
      in \<lparr>shape = tl (shape t), elems = take m (drop (i * m) (elems t))\<rparr>)"

subsection \<open>class BuildDataLoader\<close>


text \<open>The batch record, a dictionary with the keys \<open>"videos"\<close> and \<open>"labels"\<close>.\<close>

record ('b, 'l) batch =
  videos :: 'b
  labels :: "'l list"

text \<open>
  \<open>collect_fn\<close>. The loop appends to \<open>video_list\<close> and \<open>label_list\<close>; the stacking
  primitive is the first argument.
\<close>

definition collect_fn ::
  "('t list \<Rightarrow> error + 'b) \<Rightarrow> ('t \<times> 'l) list \<Rightarrow> error + ('b, 'l) batch"
where
  "collect_fn stack items =
     (case fold (\<lambda>(video, index) (video_list, label_list).
                   (video_list @ [video], label_list @ [index])) items ([], [])
      of (video_list, label_list) \<Rightarrow>
        (case stack video_list of
           Inl e \<Rightarrow> Inl e
         | Inr s \<Rightarrow> Inr \<lparr>videos = s, labels = label_list\<rparr>))"




subsection \<open>One pass of the external \<open>DataLoader\<close>\<close>








subsection \<open>Operations on a constructed dataset\<close>

text \<open>
  The three operations of the dataset in state-passing form: each returns its result and
  the dataset object as the method leaves it. None of the three methods assigns to an
  attribute of \<open>self\<close>, so the object is returned as it was received.
\<close>

datatype op = Len | GetItem int | Metadata

datatype ('v, 'm) ret = RLen "error + nat" | RItem "error + ('v \<times> nat)" | RMeta 'm

definition exec ::
  "('vc, 'v, 'a, 'i, 'm) env \<Rightarrow> ('vc, 'v, 'm) hmdb51 \<Rightarrow> op \<Rightarrow>
     ('v, 'm) ret \<times> ('vc, 'v, 'm) hmdb51"
where
  "exec E self c =
     (case c of
        Len \<Rightarrow> (RLen (len E self), self)
      | GetItem idx \<Rightarrow> (RItem (getitem E self idx), self)
      | Metadata \<Rightarrow> (RMeta (metadata self), self))"

fun run ::
  "('vc, 'v, 'a, 'i, 'm) env \<Rightarrow> ('vc, 'v, 'm) hmdb51 \<Rightarrow> op list \<Rightarrow>
     ('v, 'm) ret list \<times> ('vc, 'v, 'm) hmdb51"
where
  "run E self [] = ([], self)"
| "run E self (c # cs) =
     (case exec E self c of
        (r, self') \<Rightarrow> (case run E self' cs of (rs, self'') \<Rightarrow> (r # rs, self'')))"

subsection \<open>A small directory tree and clip collection\<close>

text \<open>
  A concrete environment on which the theorems are instantiated. The train split has the
  classes \<open>cartwheel\<close> and \<open>brush_hair\<close>, listed in that order by the file system;
  \<open>cartwheel\<close> has a subdirectory with a text file and a FIFO. The clip collection is
  the list of its video paths, every video yields two clips, and the video tensor of a
  clip has shape \<open>[2]\<close> and holds the position of the video and of the clip in it.
\<close>

definition toy_params :: "nat clip_params" where
  "toy_params = \<lparr>frames_per_clip = 5, step_between_clips = 1, frame_rate = None,
     precomputed_metadata = None, num_workers_arg = 1, video_width = 0, video_height = 0,
     video_min_dimension = 0, audio_samples = 0\<rparr>"

definition toy_env :: "(path list, nat tensor, unit, unit, nat) env" where
  "toy_env = \<lparr>
     list_dir = (\<lambda>p. if p = ''data/train'' \<or> p = ''data/test''
                      then Inr [''cartwheel'', ''brush_hair''] else Inl OSError),
     os_walk = (\<lambda>p.
       if p = ''data/train/brush_hair''
         then [(''data/train/brush_hair'', [], [''b.avi'', ''a.avi''])]
       else if p = ''data/train/cartwheel''
         then [(''data/train/cartwheel/sub'', [], [''notes.txt'', ''fifo'']),
               (''data/train/cartwheel'', [''sub''], [''c.avi''])]
       else []),
     os_path_isfile = (\<lambda>p. p \<noteq> ''data/train/cartwheel/sub/fifo''),
     VideoClips = (\<lambda>paths ps. Inr paths),
     vc_metadata = length,
     vc_subset = (\<lambda>vc ixs. if list_all (\<lambda>i. i < length vc) ixs
                             then Inr (map (nth vc) ixs) else Inl IndexError),
     vc_num_clips = (\<lambda>vc. if vc = [] then Inl IndexError else Inr (2 * length vc)),
     vc_get_clip = (\<lambda>vc i. if 0 \<le> i \<and> i < 2 * int (length vc)
                             then Inr (\<lparr>shape = [2], elems = [nat (i div 2), nat (i mod 2)]\<rparr>,
                                       (), (), i div 2)
                             else Inl IndexError)\<rparr>"

definition toy_samples :: "sample list" where
  "toy_samples =
     [(''data/train/brush_hair/a.avi'', 0), (''data/train/brush_hair/b.avi'', 0),
      (''data/train/cartwheel/c.avi'', 1), (''data/train/cartwheel/sub/notes.txt'', 1)]"

definition toy_ds :: "(path list, nat tensor, nat) hmdb51" where
  "toy_ds = \<lparr>samples = toy_samples, train = True,
     classes = [''brush_hair'', ''cartwheel''],
     video_clips_metadata = 4, indices = [0, 1, 2, 3],
     video_clips = map fst toy_samples, transform = None\<rparr>"



section \<open>Properties\<close>

subsection \<open>Auxiliary facts about the construction\<close>

lemma upt_add_Suc: "[n..<Suc (n + m)] = n # [Suc n..<Suc (n + m)]"
  by (subst upt_rec) simp

lemma get_indices_fold:
  "fold (\<lambda>(video_index, video_path) ixs. ixs @ [video_index]) (enumerate n xs) acc
     = acc @ [n..<n + length xs]"
proof (induction xs arbitrary: n acc)
  case Nil
  then show ?case by simp
next
  case (Cons x xs)
  from Cons.IH [of "Suc n" "acc @ [n]"] show ?case
    by (simp add: upt_add_Suc del: upt_Suc)
qed

lemma get_indices_upt: "get_indices xs = [0..<length xs]"
  unfolding get_indices_def using get_indices_fold [of 0 xs "[]"] by simp

lemma dict_setitem_fresh: "k \<notin> fst ` set d \<Longrightarrow> dict_setitem k v d = d @ [(k, v)]"
  by (induction d) auto

lemma class_to_idx_fold:
  "distinct cs \<Longrightarrow> set cs \<inter> fst ` set d = {} \<Longrightarrow>
   fold (\<lambda>(i, cname) d. dict_setitem cname i d) (enumerate n cs) d
     = d @ zip cs [n..<n + length cs]"
proof (induction cs arbitrary: n d)
  case Nil
  then show ?case by simp
next
  case (Cons c cs)
  have fresh: "c \<notin> fst ` set d" using Cons.prems by auto
  have disj: "set cs \<inter> fst ` set (d @ [(c, n)]) = {}" using Cons.prems by auto
  have "distinct cs" using Cons.prems by simp
  from Cons.IH [OF this disj, of "Suc n"] show ?case
    by (simp add: dict_setitem_fresh [OF fresh] upt_add_Suc del: upt_Suc)
qed

lemma class_to_idx_zip: "distinct cs \<Longrightarrow> class_to_idx cs = zip cs [0..<length cs]"
  unfolding class_to_idx_def using class_to_idx_fold [of cs "[]" 0] by simp

lemma class_to_idx_keys: "distinct cs \<Longrightarrow> dict_keys (class_to_idx cs) = cs"
  by (simp add: class_to_idx_zip dict_keys_def)

lemma class_to_idx_getitem:
  assumes "distinct cs" "i < length cs"
  shows "dict_getitem (class_to_idx cs) (cs ! i) = Inr i"
proof -
  have "map_of (zip cs [0..<length cs]) (cs ! i) = Some ([0..<length cs] ! i)"
    using assms by (intro map_of_zip_nth) auto
  then show ?thesis using assms by (simp add: class_to_idx_zip dict_getitem_def)
qed

lemma sort_keys_class_to_idx:
  "distinct names \<Longrightarrow> sort (dict_keys (class_to_idx (sort names))) = sort names"
  by (simp add: class_to_idx_keys sort_key_id_if_sorted)

lemma fnames_loop_eq:
  "fnames_loop E r c fs acc
     = acc @ map (\<lambda>p. (p, c)) (filter (os_path_isfile E) (map (path_join r) fs))"
  by (induction fs arbitrary: acc) (simp_all add: Let_def)

lemma walk_loop_eq:
  "walk_loop E c ws acc
     = acc @ map (\<lambda>p. (p, c))
         (concat (map (\<lambda>(root_curr, dirs, fnames).
                    filter (os_path_isfile E) (map (path_join root_curr) (sort fnames))) ws))"
  by (induction ws arbitrary: acc) (auto simp: fnames_loop_eq)

lemma class_loop_eq:
  assumes "distinct cs"
  shows "k \<le> length cs \<Longrightarrow>
    class_loop E rt (class_to_idx cs) (drop k cs) acc
      = Inr (acc @ concat (map (\<lambda>(i, c). map (\<lambda>p. (p, i)) (walked_files E (path_join rt c)))
                            (enumerate k (drop k cs))))"
proof (induction "length cs - k" arbitrary: k acc)
  case 0
  then show ?case by simp
next
  case (Suc m)
  then have k: "k < length cs" by simp
  then have dr: "drop k cs = cs ! k # drop (Suc k) cs"
    by (simp add: Cons_nth_drop_Suc)
  have m: "m = length cs - Suc k" using Suc.hyps by simp
  have le: "Suc k \<le> length cs" using k by simp
  show ?case
    by (simp add: dr class_to_idx_getitem [OF assms k] Suc.hyps(1) [OF m le]
        walk_loop_eq walked_files_def)
qed

lemma class_loop_walked:
  "distinct cs \<Longrightarrow> class_loop E rt (class_to_idx cs) cs [] = Inr (walked_samples E rt cs)"
  using class_loop_eq [of cs 0 E rt "[]"] by (simp add: walked_samples_def)

subsection \<open>What a successful construction has done\<close>

lemma hmdb51_init_Inr:
  assumes "hmdb51_init E root0 ps tr tf = Inr ds"
  shows "\<exists>names smp vc.
    list_dir E (split_root root0 tr) = Inr names \<and>
    class_loop E (split_root root0 tr) (class_to_idx (sort names))
      (sort (dict_keys (class_to_idx (sort names)))) [] = Inr smp \<and>
    VideoClips E (map fst smp) ps = Inr vc \<and>
    vc_subset E vc (get_indices (map fst smp)) = Inr (video_clips ds) \<and>
    ds = \<lparr>samples = smp, train = tr, classes = sort names,
          video_clips_metadata = vc_metadata E vc,
          indices = get_indices (map fst smp), video_clips = video_clips ds,
          transform = tf\<rparr>"
  using assms unfolding hmdb51_init_def Let_def
  by (auto split: sum.splits)

lemma init_samples:
  assumes "hmdb51_init E root0 ps tr tf = Inr ds"
    and "list_dir E (split_root root0 tr) = Inr names"
    and "distinct names"
  shows "samples ds = walked_samples E (split_root root0 tr) (sort names)"
    and "classes ds = sort names"
proof -
  from hmdb51_init_Inr [OF assms(1)] obtain names' smp vc where
    ld: "list_dir E (split_root root0 tr) = Inr names'"
    and loop': "class_loop E (split_root root0 tr) (class_to_idx (sort names'))
      (sort (dict_keys (class_to_idx (sort names')))) [] = Inr smp"
    and eq: "ds = \<lparr>samples = smp, train = tr, classes = sort names',
          video_clips_metadata = vc_metadata E vc,
          indices = get_indices (map fst smp), video_clips = video_clips ds,
          transform = tf\<rparr>"
    by blast
  from ld assms(2) have n: "names' = names" by simp
  have ds: "samples ds = smp" "classes ds = sort names"
    by (subst eq, simp add: n)+
  note loop = loop' [unfolded n]
  have d: "distinct (sort names)" using assms(3) by simp
  from loop show "samples ds = walked_samples E (split_root root0 tr) (sort names)"
    by (simp add: sort_keys_class_to_idx [OF assms(3)] class_loop_walked [OF d] ds)
  show "classes ds = sort names" by (rule ds)
qed

lemma toy_init: "hmdb51_init toy_env ''data'' toy_params True None = Inr toy_ds"
  by (simp add: hmdb51_init_def split_root_def toy_env_def toy_ds_def toy_samples_def
     class_to_idx_def dict_keys_def dict_getitem_def path_join_def get_indices_def)

lemma toy_list_dir:
  "list_dir toy_env (split_root ''data'' True) = Inr [''cartwheel'', ''brush_hair'']"
  by (simp add: toy_env_def split_root_def)

subsection \<open>The index mapping and the length\<close>

text \<open>
  Claim C3. Whenever construction succeeds, \<open>get_indices\<close> applied to the video-path list
  is the identity list \<open>[0, ..., n - 1]\<close>, with \<open>n\<close> the number of samples, and that list
  is stored as the index mapping; the stored clip collection is the subset, under this
  list, of the collection that \<open>VideoClips\<close> built from all video paths; \<open>len\<close> is the
  clip count of that stored collection; and every construction from the same inputs has
  the same \<open>len\<close>.
\<close>

theorem get_indices_identity:
  assumes "hmdb51_init E root0 ps tr tf = Inr ds"
  shows "get_indices (map fst (samples ds)) = [0..<length (samples ds)] \<and>
         indices ds = [0..<length (samples ds)] \<and>
         (\<exists>vc. VideoClips E (map fst (samples ds)) ps = Inr vc \<and>
               vc_subset E vc [0..<length (samples ds)] = Inr (video_clips ds)) \<and>
         len E ds = vc_num_clips E (video_clips ds) \<and>
         (\<forall>ds'. hmdb51_init E root0 ps tr tf = Inr ds' \<longrightarrow> len E ds' = len E ds)"
proof -
  from hmdb51_init_Inr [OF assms] obtain names smp vc where
    vc: "VideoClips E (map fst smp) ps = Inr vc"
    and sub: "vc_subset E vc (get_indices (map fst smp)) = Inr (video_clips ds)"
    and ds: "ds = \<lparr>samples = smp, train = tr, classes = sort names,
          video_clips_metadata = vc_metadata E vc,
          indices = get_indices (map fst smp), video_clips = video_clips ds,
          transform = tf\<rparr>"
    by blast
  have smp: "samples ds = smp" by (subst ds) simp
  have ix: "indices ds = get_indices (map fst smp)" by (subst ds) simp
  have gi: "get_indices (map fst smp) = [0..<length smp]" by (simp add: get_indices_upt)
  show ?thesis
    using vc sub assms by (simp add: smp ix gi len_def)
qed

theorem get_indices_identity_witness:
  "hmdb51_init toy_env ''data'' toy_params True None = Inr toy_ds \<and>
   indices toy_ds = [0, 1, 2, 3] \<and> len toy_env toy_ds = Inr 8"
proof -
  have h: "hmdb51_init toy_env ''data'' toy_params True None = Inr toy_ds" by (rule toy_init)
  from get_indices_identity [OF h] have "indices toy_ds = [0..<length (samples toy_ds)]"
    by blast
  then have "indices toy_ds = [0, 1, 2, 3]"
    by (simp add: toy_ds_def toy_samples_def upt_rec)
  moreover have "len toy_env toy_ds = Inr 8"
    by (simp add: len_def toy_env_def toy_ds_def toy_samples_def)
  ultimately show ?thesis using h by simp
qed

subsection \<open>The split directory and the class indices\<close>

text \<open>
  Claim C4. Whenever construction succeeds, the directory that was listed is
  \<open>root + "/train"\<close> if \<open>train\<close> holds and \<open>root + "/test"\<close> otherwise, and the class list
  is the sorted listing (the order on strings compares character codes, so it is
  case-sensitive). If the listing has no repeated name, as the listing of a directory
  has, the dictionary of class indices pairs the classes in sorted order with
  \<open>0, 1, ...\<close>, so the class at sorted position \<open>i\<close> has index \<open>i\<close>.
\<close>

theorem split_and_class_index:
  assumes "hmdb51_init E root0 ps tr tf = Inr ds"
  shows "\<exists>names. list_dir E (if tr then root0 @ ''/train'' else root0 @ ''/test'') = Inr names \<and>
           classes ds = sort names \<and>
           (distinct names \<longrightarrow>
              class_to_idx (classes ds) = zip (classes ds) [0..<length (classes ds)] \<and>
              (\<forall>i < length (classes ds).
                 dict_getitem (class_to_idx (classes ds)) (classes ds ! i) = Inr i))"
proof -
  from hmdb51_init_Inr [OF assms] obtain names smp vc where
    ld: "list_dir E (split_root root0 tr) = Inr names"
    and ds: "ds = \<lparr>samples = smp, train = tr, classes = sort names,
          video_clips_metadata = vc_metadata E vc,
          indices = get_indices (map fst smp), video_clips = video_clips ds,
          transform = tf\<rparr>"
    by blast
  have cl: "classes ds = sort names" by (subst ds) simp
  have "distinct names \<Longrightarrow> class_to_idx (sort names) = zip (sort names) [0..<length (sort names)]"
    by (rule class_to_idx_zip) simp
  moreover have "distinct names \<Longrightarrow> i < length (sort names) \<Longrightarrow>
      dict_getitem (class_to_idx (sort names)) (sort names ! i) = Inr i" for i
    by (rule class_to_idx_getitem) simp_all
  ultimately show ?thesis using ld by (auto simp: cl split_root_def)
qed

theorem split_and_class_index_witness:
  "hmdb51_init toy_env ''data'' toy_params True None = Inr toy_ds \<and>
   list_dir toy_env ''data/train'' = Inr [''cartwheel'', ''brush_hair''] \<and>
   classes toy_ds = [''brush_hair'', ''cartwheel''] \<and>
   dict_getitem (class_to_idx (classes toy_ds)) ''brush_hair'' = Inr 0 \<and>
   dict_getitem (class_to_idx (classes toy_ds)) ''cartwheel'' = Inr 1"
proof -
  have h: "hmdb51_init toy_env ''data'' toy_params True None = Inr toy_ds" by (rule toy_init)
  have ld: "list_dir toy_env ''data/train'' = Inr [''cartwheel'', ''brush_hair'']"
    by (simp add: toy_env_def)
  from split_and_class_index [OF h] ld have
    all: "\<forall>i < length (classes toy_ds).
       dict_getitem (class_to_idx (classes toy_ds)) (classes toy_ds ! i) = Inr i"
    by auto
  have cl: "classes toy_ds = [''brush_hair'', ''cartwheel'']" by (simp add: toy_ds_def)
  have "0 < length (classes toy_ds)" and "1 < length (classes toy_ds)"
    by (simp_all add: cl)
  with all have
    "dict_getitem (class_to_idx (classes toy_ds)) (classes toy_ds ! 0) = Inr 0"
    "dict_getitem (class_to_idx (classes toy_ds)) (classes toy_ds ! 1) = Inr 1"
    by blast+
  then have "dict_getitem (class_to_idx (classes toy_ds)) ''brush_hair'' = Inr 0"
    and "dict_getitem (class_to_idx (classes toy_ds)) ''cartwheel'' = Inr 1"
    by (simp_all add: cl)
  then show ?thesis using h ld by (simp add: cl)
qed

subsection \<open>The sample list\<close>

lemma insort_key_fst:
  fixes x :: "'x::linorder \<times> 'y::linorder"
  shows "fst x \<notin> fst ` set ys \<Longrightarrow> insort_key fst x ys = insort x ys"
  by (induction ys) (auto simp: less_eq_prod_def)

lemma sort_by_directory:
  fixes ws :: "('x::linorder \<times> 'y::linorder) list"
  shows "distinct (map fst ws) \<Longrightarrow> sort_key fst ws = sort ws"
  by (induction ws) (simp_all add: insort_key_fst)

lemma spec_class_files_eq:
  "distinct (map fst (os_walk E d)) \<Longrightarrow> spec_class_files E d = walked_files E d"
  by (simp add: spec_class_files_def walked_files_def sort_by_directory)

lemma spec_samples_eq:
  assumes "\<forall>c \<in> set cls. distinct (map fst (os_walk E (path_join rt c)))"
  shows "spec_samples E rt cls = walked_samples E rt cls"
  unfolding spec_samples_def walked_samples_def
proof (rule arg_cong [where f = concat], rule map_cong [OF refl])
  fix x assume "x \<in> set (enumerate 0 cls)"
  then have a: "fst x < length cls" and b: "cls ! fst x = snd x"
    by (simp_all add: in_set_enumerate_eq)
  from nth_mem [OF a] b have "snd x \<in> set cls" by simp
  with assms have "spec_class_files E (path_join rt (snd x)) = walked_files E (path_join rt (snd x))"
    by (simp add: spec_class_files_eq)
  then show "(case x of (i, c) \<Rightarrow> map (\<lambda>p. (p, i)) (spec_class_files E (path_join rt c)))
           = (case x of (i, c) \<Rightarrow> map (\<lambda>p. (p, i)) (walked_files E (path_join rt c)))"
    by (simp add: case_prod_beta)
qed

lemma set_walked_files:
  "set (walked_files E d) =
     {path_join root_curr fname | root_curr dirs fnames fname.
        (root_curr, dirs, fnames) \<in> set (os_walk E d) \<and> fname \<in> set fnames \<and>
        os_path_isfile E (path_join root_curr fname)}"
  unfolding walked_files_def by (auto simp: image_iff) force+

lemma walked_samples_nth:
  assumes "k < length (walked_samples E rt cls)"
  shows "\<exists>l < length cls. \<exists>p. walked_samples E rt cls ! k = (p, l) \<and>
           p \<in> set (walked_files E (path_join rt (cls ! l)))"
proof -
  have "walked_samples E rt cls ! k \<in> set (walked_samples E rt cls)"
    using assms by simp
  then show ?thesis
    unfolding walked_samples_def by (auto simp: in_set_enumerate_eq)
qed

lemma walked_samples_mem:
  assumes "l < length cls" "p \<in> set (walked_files E (path_join rt (cls ! l)))"
  shows "(p, l) \<in> set (walked_samples E rt cls)"
  unfolding walked_samples_def using assms
  by (auto simp: in_set_enumerate_eq intro!: bexI [of _ "(l, cls ! l)"])

text \<open>
  Claim C5. Let construction succeed on a class listing without repeated names, and let
  every walk yield each directory once, as \<open>os.walk\<close> does. Then the sample list is
  exactly the list the specification describes: for the classes in sorted order, the
  directories of the walk of the class directory in sorted order, the file names of each
  directory in sorted order, every joined path that is a regular file, paired with the
  position of the class.
\<close>

theorem samples_in_walk_order:
  assumes "hmdb51_init E root0 ps tr tf = Inr ds"
    and "list_dir E (split_root root0 tr) = Inr names"
    and "distinct names"
    and "\<forall>c \<in> set names. distinct (map fst (os_walk E (path_join (split_root root0 tr) c)))"
  shows "samples ds = spec_samples E (split_root root0 tr) (sort names)"
proof -
  have "spec_samples E (split_root root0 tr) (sort names)
      = walked_samples E (split_root root0 tr) (sort names)"
    using assms(4) by (intro spec_samples_eq) simp
  with init_samples(1) [OF assms(1-3)] show ?thesis by simp
qed

lemma toy_walk_distinct:
  "\<forall>c \<in> set [''cartwheel'', ''brush_hair''].
     distinct (map fst (os_walk toy_env (path_join (split_root ''data'' True) c)))"
  by (simp add: toy_env_def path_join_def split_root_def)

theorem samples_in_walk_order_witness:
  "samples toy_ds = spec_samples toy_env ''data/train'' [''brush_hair'', ''cartwheel''] \<and>
   samples toy_ds =
     [(''data/train/brush_hair/a.avi'', 0), (''data/train/brush_hair/b.avi'', 0),
      (''data/train/cartwheel/c.avi'', 1), (''data/train/cartwheel/sub/notes.txt'', 1)]"
proof -
  have d: "distinct [''cartwheel'', ''brush_hair'']" by simp
  from samples_in_walk_order [OF toy_init toy_list_dir d toy_walk_distinct]
  have "samples toy_ds = spec_samples toy_env ''data/train'' [''brush_hair'', ''cartwheel'']"
    by (simp add: split_root_def)
  then show ?thesis by (simp add: toy_ds_def toy_samples_def)
qed

text \<open>
  Claim C9. The list \<open>extensions\<close> bound at the start of \<open>hmdb51_init\<close> occurs nowhere
  else in it. Accordingly every file name that the walk of a class directory reports and
  whose joined path is a regular file yields a sample with the index of that class; the
  statement puts no condition on the name, so a name that does not end in \<open>.avi\<close> is
  collected as well.
\<close>

theorem no_extension_filter:
  assumes "hmdb51_init E root0 ps tr tf = Inr ds"
    and "list_dir E (split_root root0 tr) = Inr names"
    and "distinct names"
    and "i < length names"
    and "(root_curr, dirs, fnames) \<in> set (os_walk E (path_join (split_root root0 tr) (sort names ! i)))"
    and "fname \<in> set fnames"
    and "os_path_isfile E (path_join root_curr fname)"
  shows "(path_join root_curr fname, i) \<in> set (samples ds)"
proof -
  have "path_join root_curr fname
      \<in> set (walked_files E (path_join (split_root root0 tr) (sort names ! i)))"
    unfolding set_walked_files using assms(5-7) by blast
  moreover have "i < length (sort names)" using assms(4) by simp
  ultimately show ?thesis
    unfolding init_samples(1) [OF assms(1-3)] by (rule walked_samples_mem [rotated])
qed

theorem no_extension_filter_witness:
  "(''data/train/cartwheel/sub/notes.txt'', 1) \<in> set (samples toy_ds)"
proof -
  have d: "distinct [''cartwheel'', ''brush_hair'']" by simp
  have i: "1 < length [''cartwheel'', ''brush_hair'']" by simp
  have w: "(''data/train/cartwheel/sub'', [], [''notes.txt'', ''fifo''])
      \<in> set (os_walk toy_env (path_join (split_root ''data'' True)
                (sort [''cartwheel'', ''brush_hair''] ! 1)))"
    by (simp add: toy_env_def path_join_def split_root_def)
  have f: "''notes.txt'' \<in> set [''notes.txt'', ''fifo'']" by simp
  have r: "os_path_isfile toy_env (path_join ''data/train/cartwheel/sub'' ''notes.txt'')"
    by (simp add: toy_env_def path_join_def)
  from no_extension_filter [OF toy_init toy_list_dir d i w f r] show ?thesis
    by (simp add: path_join_def)
qed

subsection \<open>Items\<close>

lemma py_getitem_nat: "k < length xs \<Longrightarrow> py_getitem xs (int k) = Inr (xs ! k)"
  by (simp add: py_getitem_def)

lemma init_fields:
  assumes "hmdb51_init E root0 ps tr tf = Inr ds"
  shows "indices ds = [0..<length (samples ds)]" and "transform ds = tf" and "train ds = tr"
proof -
  from hmdb51_init_Inr [OF assms] obtain names smp vc where
    ds: "ds = \<lparr>samples = smp, train = tr, classes = sort names,
          video_clips_metadata = vc_metadata E vc,
          indices = get_indices (map fst smp), video_clips = video_clips ds,
          transform = tf\<rparr>"
    by blast
  have "samples ds = smp" by (subst ds) simp
  moreover have "indices ds = get_indices (map fst smp)" by (subst ds) simp
  ultimately show "indices ds = [0..<length (samples ds)]" by (simp add: get_indices_upt)
  show "transform ds = tf" by (subst ds) simp
  show "train ds = tr" by (subst ds) simp
qed

text \<open>
  Claim C1. Let construction succeed on a class listing without repeated names, and let
  the clip collection answer \<open>get_clip idx\<close> with a clip whose source-video index
  \<open>video_idx\<close> is a position of the video list (this is what makes \<open>idx\<close> a valid
  index). Then \<open>getitem\<close> returns the clip, transformed if a transform is present,
  with the label \<open>l\<close> of the sample at position \<open>video_idx\<close>; the path of that sample
  was found as a regular file in the walk of the class directory at sorted position
  \<open>l\<close>, and \<open>l\<close> is the index that the class dictionary gives that class. The audio
  tensor and the clip info do not occur in the result.
\<close>

theorem item_label:
  assumes "hmdb51_init E root0 ps tr tf = Inr ds"
    and "list_dir E (split_root root0 tr) = Inr names"
    and "distinct names"
    and "vc_get_clip E (video_clips ds) idx = Inr (video, audio, info, video_idx)"
    and "0 \<le> video_idx" and "video_idx < int (length (samples ds))"
  shows "\<exists>p l root_curr dirs fnames fname.
     getitem E ds idx = Inr (case tf of None \<Rightarrow> video | Some f \<Rightarrow> f video, l) \<and>
     samples ds ! nat video_idx = (p, l) \<and>
     classes ds = sort names \<and> l < length (classes ds) \<and>
     dict_getitem (class_to_idx (classes ds)) (classes ds ! l) = Inr l \<and>
     (root_curr, dirs, fnames)
        \<in> set (os_walk E (path_join (split_root root0 tr) (classes ds ! l))) \<and>
     fname \<in> set fnames \<and> p = path_join root_curr fname \<and> os_path_isfile E p"
proof -
  let ?k = "nat video_idx"
  have k: "?k < length (samples ds)" and ik: "int ?k = video_idx" using assms(5,6) by simp_all
  have smp: "samples ds = walked_samples E (split_root root0 tr) (sort names)"
    and cls: "classes ds = sort names"
    by (rule init_samples [OF assms(1-3)])+
  from walked_samples_nth [of ?k E "split_root root0 tr" "sort names"] k smp
  obtain l p where l: "l < length (sort names)" and nth: "samples ds ! ?k = (p, l)"
    and p: "p \<in> set (walked_files E (path_join (split_root root0 tr) (sort names ! l)))"
    by auto
  from p obtain root_curr dirs fnames fname where
    w: "(root_curr, dirs, fnames)
          \<in> set (os_walk E (path_join (split_root root0 tr) (sort names ! l)))"
       "fname \<in> set fnames" "p = path_join root_curr fname" "os_path_isfile E p"
    unfolding set_walked_files by blast
  have "py_getitem (indices ds) (int ?k) = Inr (indices ds ! ?k)"
    using k by (intro py_getitem_nat) (simp add: init_fields(1) [OF assms(1)])
  then have ix: "py_getitem (indices ds) video_idx = Inr ?k"
    using k unfolding ik by (simp add: init_fields(1) [OF assms(1)])
  have "py_getitem (samples ds) (int ?k) = Inr (samples ds ! ?k)"
    by (rule py_getitem_nat [OF k])
  then have sm: "py_getitem (samples ds) video_idx = Inr (p, l)"
    unfolding ik nth .
  have g: "getitem E ds idx = Inr (case tf of None \<Rightarrow> video | Some f \<Rightarrow> f video, l)"
    using assms(5) by (simp add: getitem_def assms(4) ix sm init_fields(2) [OF assms(1)])
  have d: "dict_getitem (class_to_idx (sort names)) (sort names ! l) = Inr l"
    using assms(3) l by (intro class_to_idx_getitem) simp_all
  show ?thesis using g nth l w d unfolding cls by blast
qed

theorem item_label_witness:
  "getitem toy_env toy_ds 5 = Inr (\<lparr>shape = [2], elems = [2, 1]\<rparr>, 1) \<and>
   classes toy_ds ! 1 = ''cartwheel''"
proof -
  have d: "distinct [''cartwheel'', ''brush_hair'']" by simp
  have c: "vc_get_clip toy_env (video_clips toy_ds) 5
             = Inr (\<lparr>shape = [2], elems = [2, 1]\<rparr>, (), (), 2)"
    by (simp add: toy_env_def toy_ds_def toy_samples_def)
  have lo: "(0::int) \<le> 2" by simp
  have hi: "(2::int) < int (length (samples toy_ds))"
    by (simp add: toy_ds_def toy_samples_def)
  from item_label [OF toy_init toy_list_dir d c lo hi]
  obtain p l where "getitem toy_env toy_ds 5 = Inr (\<lparr>shape = [2], elems = [2, 1]\<rparr>, l)"
    and "samples toy_ds ! nat 2 = (p, l)"
    by auto
  then have "getitem toy_env toy_ds 5 = Inr (\<lparr>shape = [2], elems = [2, 1]\<rparr>, 1)"
    by (simp add: toy_ds_def toy_samples_def)
  then show ?thesis by (simp add: toy_ds_def)
qed

subsection \<open>Collation\<close>

lemma collect_fold:
  "fold (\<lambda>(video, index) (video_list, label_list).
           (video_list @ [video], label_list @ [index])) items (vl, ll)
     = (vl @ map fst items, ll @ map snd items)"
  by (induction items arbitrary: vl ll) (auto simp: case_prod_beta)

lemma collect_fn_eq:
  "collect_fn stack items =
     (case stack (map fst items) of
        Inl e \<Rightarrow> Inl e
      | Inr s \<Rightarrow> Inr \<lparr>videos = s, labels = map snd items\<rparr>)"
  using collect_fold [of items "[]" "[]"] by (simp add: collect_fn_def)

lemma torch_stack_same_shape:
  assumes "ts \<noteq> []" and "\<forall>t \<in> set ts. shape t = s"
  shows "torch_stack ts = Inr \<lparr>shape = length ts # s, elems = concat (map elems ts)\<rparr>"
  using assms by (cases ts) (auto simp: torch_stack_def list_all_iff)

lemma take_drop_concat:
  assumes "\<forall>xs \<in> set xss. length xs = m" and "i < length xss"
  shows "take m (drop (i * m) (concat xss)) = xss ! i"
  using assms
proof (induction xss arbitrary: i)
  case Nil
  then show ?case by simp
next
  case (Cons xs xss)
  show ?case
  proof (cases i)
    case 0
    with Cons.prems show ?thesis by simp
  next
    case (Suc j)
    with Cons.prems have "take m (drop (j * m) (concat xss)) = xss ! j"
      by (intro Cons.IH) auto
    with Cons.prems Suc show ?thesis by simp
  qed
qed

text \<open>
  Claim C2. For a non-empty list of (clip, label) pairs whose clips all have the shape
  \<open>s\<close>, \<open>collect_fn\<close> returns a batch record (a record of the two fields \<open>videos\<close> and
  \<open>labels\<close>): \<open>videos\<close> has the shape \<open>s\<close> preceded by the number of pairs and holds the
  elements of the clips one clip after the other, so that, for clips with as many
  elements as their shape says, its \<open>i\<close>-th slice is the \<open>i\<close>-th clip; \<open>labels\<close> is the
  list of the labels in the order of the input.
\<close>

theorem collect_fn_stacks:
  fixes items :: "('x tensor \<times> 'l) list"
  assumes "items \<noteq> []" and "\<forall>p \<in> set items. shape (fst p) = s"
  shows "\<exists>r. collect_fn torch_stack items = Inr r \<and>
           shape (videos r) = length items # s \<and>
           elems (videos r) = concat (map (\<lambda>p. elems (fst p)) items) \<and>
           labels r = map snd items \<and>
           ((\<forall>p \<in> set items. length (elems (fst p)) = prod_list s) \<longrightarrow>
              (\<forall>i < length items. select0 (videos r) i = fst (items ! i)))"
proof -
  let ?v = "\<lparr>shape = length items # s, elems = concat (map (\<lambda>p. elems (fst p)) items)\<rparr>"
  let ?r = "\<lparr>videos = ?v, labels = map snd items\<rparr>"
  have st: "torch_stack (map fst items) = Inr ?v"
    using assms torch_stack_same_shape [of "map fst items" s] by (simp add: comp_def)
  have r: "collect_fn torch_stack items = Inr ?r"
    by (simp add: collect_fn_eq st)
  have sel: "select0 ?v i = fst (items ! i)"
    if wf: "\<forall>p \<in> set items. length (elems (fst p)) = prod_list s" and i: "i < length items" for i
  proof -
    have "take (prod_list s) (drop (i * prod_list s) (concat (map (\<lambda>p. elems (fst p)) items)))
        = map (\<lambda>p. elems (fst p)) items ! i"
      using wf i by (intro take_drop_concat) auto
    moreover have "shape (fst (items ! i)) = s" using assms(2) i by simp
    ultimately show ?thesis using i by (simp add: select0_def)
  qed
  then have all: "(\<forall>p \<in> set items. length (elems (fst p)) = prod_list s) \<longrightarrow>
              (\<forall>i < length items. select0 ?v i = fst (items ! i))"
    by blast
  show ?thesis
  proof (intro exI [of _ ?r] conjI)
    show "collect_fn torch_stack items = Inr ?r" by (rule r)
    show "shape (videos ?r) = length items # s" by simp
    show "elems (videos ?r) = concat (map (\<lambda>p. elems (fst p)) items)" by simp
    show "labels ?r = map snd items" by simp
    show "(\<forall>p \<in> set items. length (elems (fst p)) = prod_list s) \<longrightarrow>
              (\<forall>i < length items. select0 (videos ?r) i = fst (items ! i))"
      using all by simp
  qed
qed

theorem collect_fn_stacks_witness:
  "collect_fn torch_stack
     [(\<lparr>shape = [2], elems = [0, 1 :: nat]\<rparr>, 0 :: nat), (\<lparr>shape = [2], elems = [2, 1]\<rparr>, 1)]
   = Inr \<lparr>videos = \<lparr>shape = [2, 2], elems = [0, 1, 2, 1]\<rparr>, labels = [0, 1]\<rparr>"
proof -
  let ?items = "[(\<lparr>shape = [2], elems = [0, 1 :: nat]\<rparr>, 0 :: nat), (\<lparr>shape = [2], elems = [2, 1]\<rparr>, 1)]"
  have ne: "?items \<noteq> []" by simp
  have sh: "\<forall>p \<in> set ?items. shape (fst p) = [2]" by simp
  from collect_fn_stacks [OF ne sh] obtain r where
    r: "collect_fn torch_stack ?items = Inr r"
    and "shape (videos r) = length ?items # [2]"
    and "elems (videos r) = concat (map (\<lambda>p. elems (fst p)) ?items)"
    and "labels r = map snd ?items"
    by blast
  then have "r = \<lparr>videos = \<lparr>shape = [2, 2], elems = [0, 1, 2, 1]\<rparr>, labels = [0, 1]\<rparr>"
    by (cases r) (simp add: tensor.equality)
  with r show ?thesis by simp
qed

text \<open>
  Claim C10. On the empty list \<open>collect_fn\<close> hands the empty list to the stacking
  primitive and returns its failure: whatever error the primitive raises on the empty
  list is the result, and with \<open>torch_stack\<close> the result is a \<open>RuntimeError\<close>, not a
  batch record.
\<close>

theorem collect_fn_empty:
  "collect_fn torch_stack ([] :: ('x tensor \<times> 'l) list) = Inl RuntimeError \<and>
   (\<forall>(stack :: 't list \<Rightarrow> error + 'b) e.
      stack [] = Inl e \<longrightarrow> collect_fn stack ([] :: ('t \<times> 'l) list) = Inl e)"
  by (simp add: collect_fn_eq torch_stack_def)

theorem collect_fn_empty_witness:
  "torch_stack ([] :: nat tensor list) = Inl RuntimeError \<and>
   collect_fn torch_stack ([] :: (nat tensor \<times> nat) list) = Inl RuntimeError"
proof -
  have h: "torch_stack ([] :: nat tensor list) = Inl RuntimeError"
    by (simp add: torch_stack_def)
  from collect_fn_empty [where ?'t = "nat tensor" and ?'b = "nat tensor" and ?'l = nat] h
  have "collect_fn torch_stack ([] :: (nat tensor \<times> nat) list) = Inl RuntimeError"
    by blast
  with h show ?thesis by simp
qed

subsection \<open>The loader\<close>



















subsection \<open>The operations do not change the dataset\<close>

lemma exec_state: "snd (exec E self c) = self"
  by (cases c) (simp_all add: exec_def)

lemma run_state: "snd (run E self cs) = self"
proof (induction cs arbitrary: self)
  case Nil
  then show ?case by simp
next
  case (Cons c cs)
  obtain r self' where e: "exec E self c = (r, self')" by (cases "exec E self c")
  with exec_state [of E self c] have s: "self' = self" by simp
  obtain rs self'' where r: "run E self cs = (rs, self'')" by (cases "run E self cs")
  with Cons.IH [of self] have "self'' = self" by simp
  with e s r show ?case by simp
qed

text \<open>
  Claim C8. Each of the operations \<open>length\<close>, \<open>item\<close> (for any index, also when it
  raises) and \<open>metadata\<close>, and every sequence of them, leaves the dataset as it was:
  sample list, class list, index mapping, clip collection, stored metadata and transform
  are unchanged.
\<close>

theorem operations_preserve_state:
  "snd (exec E self c) = self \<and> snd (run E self cs) = self \<and>
   samples (snd (run E self cs)) = samples self \<and>
   classes (snd (run E self cs)) = classes self \<and>
   indices (snd (run E self cs)) = indices self \<and>
   video_clips (snd (run E self cs)) = video_clips self \<and>
   video_clips_metadata (snd (run E self cs)) = video_clips_metadata self \<and>
   transform (snd (run E self cs)) = transform self"
  by (simp add: exec_state run_state)

text \<open>
  Claim C7. With the clip collection and the transform as functions, the result of
  \<open>item idx\<close> on a constructed dataset does not depend on the operations performed
  before it: after any two histories it is the same, namely \<open>getitem\<close> of the dataset
  as constructed.
\<close>

theorem item_deterministic:
  "fst (exec E (snd (run E self cs1)) (GetItem idx))
     = fst (exec E (snd (run E self cs2)) (GetItem idx)) \<and>
   fst (exec E (snd (run E self cs1)) (GetItem idx)) = RItem (getitem E self idx)"
  by (simp add: run_state exec_def)

end
